theory Spec2Isabelle
  imports Main
begin

section \<open>Python values used by bot.py\<close>

text \<open>
  A Python \<open>str\<close> is a sequence of Unicode code points, and \<open>len\<close>, slicing,
  \<open>replace\<close> and \<open>strip\<close> all count code points. A string is therefore a list
  of code points (natural numbers); \<open>lit\<close> gives the code points of an ASCII literal.
\<close>

type_synonym str = "nat list"

definition lit :: "string \<Rightarrow> str" where
  "lit s = map of_char s"

datatype error = IndexError

text \<open>
  \<open>str.isspace\<close> of one code point, which is what \<open>str.strip()\<close> without argument
  removes: the ASCII controls 9..13 and 28..31, the space, and the Unicode white space
  U+0085, U+00A0, U+1680, U+2000..U+200A, U+2028, U+2029, U+202F, U+205F, U+3000.
\<close>

definition isspace :: "nat \<Rightarrow> bool" where
  "isspace c \<longleftrightarrow>
     (9 \<le> c \<and> c \<le> 13) \<or> (28 \<le> c \<and> c \<le> 32) \<or> c = 133 \<or> c = 160 \<or> c = 5760 \<or>
     (8192 \<le> c \<and> c \<le> 8202) \<or> c = 8232 \<or> c = 8233 \<or> c = 8239 \<or> c = 8287 \<or> c = 12288"

definition strip :: "str \<Rightarrow> str" where
  "strip s = rev (dropWhile isspace (rev (dropWhile isspace s)))"

definition startswith :: "str \<Rightarrow> str \<Rightarrow> bool" where
  "startswith s p \<longleftrightarrow> take (length p) s = p"

text \<open>
  \<open>s.replace(old, new)\<close>: the occurrences of \<open>old\<close> are replaced from left to right,
  without overlap. With an empty \<open>old\<close> Python puts \<open>new\<close> before every character and
  at the end.
\<close>

function replace :: "str \<Rightarrow> str \<Rightarrow> str \<Rightarrow> str" where
  "replace old new [] = (if old = [] then new else [])"
| "replace old new (c # cs) =
     (if old = [] then new @ c # replace old new cs
      else if take (length old) (c # cs) = old
        then new @ replace old new (drop (length old) (c # cs))
      else c # replace old new cs)"
  by pat_completeness auto
termination
  by (relation "measure (\<lambda>(old, new, s). length s)") (auto simp: neq_Nil_conv)

text \<open>\<open>str(n)\<close> of a Python int: its decimal digits, with a minus sign when negative.\<close>

fun digits :: "nat \<Rightarrow> str" where
  "digits n = (if n < 10 then [48 + n] else digits (n div 10) @ [48 + n mod 10])"

declare digits.simps [simp del]

definition str_int :: "int \<Rightarrow> str" where
  "str_int i = (if i < 0 then 45 # digits (nat (- i)) else digits (nat i))"

text \<open>
  The slices of the source: \<open>xs[-n:]\<close> with \<open>n \<ge> 0\<close> (for \<open>n = 0\<close> Python reads
  \<open>xs[0:]\<close>, the whole list), and \<open>xs[i:j]\<close> with \<open>0 \<le> i \<le> j\<close>, both clamped to
  the list.
\<close>

definition slice_last :: "nat \<Rightarrow> 'a list \<Rightarrow> 'a list" where
  "slice_last n xs = (if n = 0 then xs else drop (length xs - n) xs)"

definition slice :: "'a list \<Rightarrow> nat \<Rightarrow> nat \<Rightarrow> 'a list" where
  "slice xs i j = take (j - i) (drop i xs)"

text \<open>
  \<open>range(start, stop, step)\<close> for a positive step. (Python raises ValueError for a
  zero step; the only call passes the literal 2000.)
\<close>

function range_step :: "nat \<Rightarrow> nat \<Rightarrow> nat \<Rightarrow> nat list" where
  "range_step i stop step =
     (if step = 0 \<or> stop \<le> i then [] else i # range_step (i + step) stop step)"
  by pat_completeness auto
termination
  by (relation "measure (\<lambda>(i, stop, step). stop - i)") auto

declare range_step.simps [simp del]

section \<open>Configuration\<close>

definition MAX_HISTORY_LENGTH :: nat where
  "MAX_HISTORY_LENGTH = 20"

definition nl :: str where
  "nl = [10]"

definition SYSTEM_PROMPT :: str where
  "SYSTEM_PROMPT =
     lit ''You are a friendly and helpful Discord bot assistant. You engage in natural conversations '' @ nl @
     lit ''and help users with various tasks.'' @ nl @
     nl @
     lit ''RESPONSE GUIDELINES:'' @ nl @
     lit ''- When asked questions, provide DETAILED and COMPREHENSIVE information'' @ nl @
     lit ''- Include relevant examples, explanations, and context to fully answer the question'' @ nl @
     lit ''- Break down complex topics into easy-to-understand parts'' @ nl @
     lit ''- Use bullet points, numbered lists, or formatting to organize information clearly'' @ nl @
     lit ''- Be thorough but still conversational and friendly'' @ nl @
     lit ''- Use occasional emojis to maintain an engaging tone'' @ nl @
     lit ''- If a topic is broad, cover multiple aspects of it'' @ nl @
     nl @
     lit ''IMPORTANT CONTENT GUIDELINES - YOU MUST FOLLOW THESE STRICTLY:'' @ nl @
     lit ''- Keep ALL responses appropriate for PG-13 audiences (suitable for ages 13+)'' @ nl @
     lit ''- Do NOT use profanity, explicit language, or crude humor'' @ nl @
     lit ''- Avoid discussing violence, gore, or disturbing content in detail'' @ nl @
     lit ''- Do not engage with requests for adult content, illegal activities, or harmful information'' @ nl @
     lit ''- Keep discussions family-friendly and appropriate for all ages'' @ nl @
     lit ''- If asked about inappropriate topics, politely decline and redirect to appropriate conversation'' @ nl @
     lit ''- Be respectful and maintain a positive, wholesome tone at all times''"

section \<open>The conversation history\<close>

text \<open>
  \<open>conversation_history = defaultdict(list)\<close> maps a user id to a list of dicts
  \<open>{"role": ..., "content": ...}\<close>. The three role strings the source writes are the
  constructors of \<open>role\<close>. Reading a missing key of a \<open>defaultdict\<close> stores the default
  (the empty list) under the key and returns it: \<open>getitem\<close>.
\<close>

datatype role = System | User | Assistant

record turn =
  role :: role
  content :: str

type_synonym history = "int \<rightharpoonup> turn list"

definition getitem :: "history \<Rightarrow> int \<Rightarrow> history \<times> turn list" where
  "getitem h user_id =
     (case h user_id of None \<Rightarrow> (h(user_id \<mapsto> []), []) | Some b \<Rightarrow> (h, b))"

text \<open>What a read of \<open>conversation_history[user_id]\<close> observes.\<close>

definition buffer :: "history \<Rightarrow> int \<Rightarrow> turn list" where
  "buffer h user_id = snd (getitem h user_id)"

text \<open>\<open>conversation_history[user_id].append(t)\<close> (lines 78 and 104).\<close>

definition append_turn :: "history \<Rightarrow> int \<Rightarrow> turn \<Rightarrow> history" where
  "append_turn h user_id t = (case getitem h user_id of (h', b) \<Rightarrow> h'(user_id \<mapsto> b @ [t]))"

text \<open>The trim of lines 84 and 85.\<close>

definition trim :: "history \<Rightarrow> int \<Rightarrow> history" where
  "trim h user_id =
     (case getitem h user_id of (h1, b) \<Rightarrow>
        if length b > MAX_HISTORY_LENGTH
        then (case getitem h1 user_id of (h2, b2) \<Rightarrow>
                h2(user_id \<mapsto> slice_last MAX_HISTORY_LENGTH b2))
        else h1)"

text \<open>
  Lines 88 and 89: the list sent to the completion client, the system turn followed by
  the user's buffer. The source always uses \<open>SYSTEM_PROMPT\<close>; the prompt is an argument
  here.
\<close>

definition render :: "str \<Rightarrow> history \<Rightarrow> int \<Rightarrow> history \<times> turn list" where
  "render prompt h user_id =
     (case getitem h user_id of (h', b) \<Rightarrow> (h', \<lparr>role = System, content = prompt\<rparr> # b))"

text \<open>
  Line 113, \<open>conversation_history[user_id].pop()\<close>: \<open>list.pop\<close> removes the last
  element, and raises IndexError on an empty list.
\<close>

definition rollback_last :: "history \<Rightarrow> int \<Rightarrow> error + history" where
  "rollback_last h user_id =
     (case getitem h user_id of (h', b) \<Rightarrow>
        if b = [] then Inl IndexError else Inr (h'(user_id \<mapsto> butlast b)))"

definition reset_conversation :: "history \<Rightarrow> int \<Rightarrow> history" where
  "reset_conversation h user_id = h(user_id \<mapsto> [])"

section \<open>The world the handlers act on\<close>

text \<open>
  Besides the history, the handlers call the completion client and send messages. Both
  effects are logged in the state: \<open>api_calls\<close> holds the message list of every
  \<open>chat.completions.create\<close> call (the model name, \<open>max_tokens=1000\<close> and
  \<open>temperature=0.7\<close> are the same in every call), and \<open>sent\<close> every message handed
  to Discord, \<open>Reply\<close> for \<open>message.reply\<close> or \<open>ctx.reply\<close>, \<open>Send\<close> for
  \<open>message.channel.send\<close>, \<open>Reply_embed\<close> for the reply that carries the help embed.

  The completion client is outside the program: a \<open>client\<close> says, for the messages of
  one call, whether the call and the extraction of \<open>choices[0].message.content\<close> raise
  (\<open>Inl\<close> of \<open>str(e)\<close>) or give the reply text (\<open>Inr\<close>).
\<close>

datatype outgoing = Reply str | Send str | Reply_embed

type_synonym client = "turn list \<Rightarrow> str + str"

record world =
  conversation_history :: history
  api_calls :: "turn list list"
  sent :: "outgoing list"

definition initial :: world where
  "initial = \<lparr>conversation_history = Map.empty, api_calls = [], sent = []\<rparr>"

definition get_ai_response :: "client \<Rightarrow> world \<Rightarrow> int \<Rightarrow> str \<Rightarrow> error + (world \<times> str)" where
  "get_ai_response complete w user_id user_message =
     (let h1 = append_turn (conversation_history w) user_id
                 \<lparr>role = User, content = user_message\<rparr>;
          h2 = trim h1 user_id;
          (h3, messages) = render SYSTEM_PROMPT h2 user_id;
          w1 = w\<lparr>conversation_history := h3, api_calls := api_calls w @ [messages]\<rparr>
      in (case complete messages of
            Inr ai_message \<Rightarrow>
              Inr (w1\<lparr>conversation_history :=
                         append_turn h3 user_id \<lparr>role = Assistant, content = ai_message\<rparr>\<rparr>,
                   ai_message)
          | Inl e \<Rightarrow>
              (case rollback_last h3 user_id of
                 Inl err \<Rightarrow> Inl err
               | Inr h4 \<Rightarrow>
                   Inr (w1\<lparr>conversation_history := h4\<rparr>,
                        lit ''Sorry, I encountered an error: '' @ e))))"

section \<open>The dispatcher\<close>

text \<open>
  Of a \<open>discord.Message\<close> the handler reads the author, the text, whether the channel
  is a \<open>DMChannel\<close>, and \<open>bot.user.mentioned_in(message)\<close>, which the library
  computes.
\<close>

record event =
  author_id :: int
  content :: str
  is_dm :: bool
  mentioned :: bool

definition command_prefix :: str where
  "command_prefix = lit ''!''"

text \<open>Lines 148 to 161: whether to respond, and the user message.\<close>

definition derive_user_message :: "int \<Rightarrow> event \<Rightarrow> bool \<times> str" where
  "derive_user_message bot_id ev =
     (if is_dm ev then (True, content ev)
      else if mentioned ev then
        (let user_message = strip (replace (lit ''<@'' @ str_int bot_id @ lit ''>'') [] (content ev));
             user_message = strip (replace (lit ''<@!'' @ str_int bot_id @ lit ''>'') [] (content ev))
         in (True, user_message))
      else (False, content ev))"

text \<open>Lines 170 to 179: the response is sent whole, or in slices of 2000 characters.\<close>

definition chunks :: "str \<Rightarrow> str list" where
  "chunks response =
     map (\<lambda>i. slice response i (i + 2000)) (range_step 0 (length response) 2000)"

definition send_response :: "world \<Rightarrow> str \<Rightarrow> world" where
  "send_response w response =
     (if length response \<le> 2000 then w\<lparr>sent := sent w @ [Reply response]\<rparr>
      else foldl (\<lambda>w (i, chunk).
                    if i = 0 then w\<lparr>sent := sent w @ [Reply chunk]\<rparr>
                    else w\<lparr>sent := sent w @ [Send chunk]\<rparr>)
             w (enumerate 0 (chunks response)))"

definition payload :: "outgoing \<Rightarrow> str" where
  "payload m = (case m of Reply s \<Rightarrow> s | Send s \<Rightarrow> s | Reply_embed \<Rightarrow> [])"

text \<open>
  The two commands of the file. \<open>bot.process_commands\<close> belongs to the discord.py
  library: it finds the command a message invokes, if any, and runs its handler. Which
  command the library finds for an event is the parameter \<open>resolve\<close>; with no command
  found nothing is run and nothing is sent.
\<close>

datatype command = Reset_command | Help_command

definition RESET_REPLY :: str where
  "RESET_REPLY =
     128260 # lit '' Conversation reset! I'' @ [39] @
     lit ''ve forgotten our previous chat. Let'' @ [39] @ lit ''s start fresh!''"

definition reset_command :: "world \<Rightarrow> event \<Rightarrow> world" where
  "reset_command w ev =
     w\<lparr>conversation_history := reset_conversation (conversation_history w) (author_id ev),
       sent := sent w @ [Reply RESET_REPLY]\<rparr>"

definition help_command :: "world \<Rightarrow> event \<Rightarrow> world" where
  "help_command w ev = w\<lparr>sent := sent w @ [Reply_embed]\<rparr>"

definition process_commands :: "(event \<Rightarrow> command option) \<Rightarrow> world \<Rightarrow> event \<Rightarrow> world" where
  "process_commands resolve w ev =
     (case resolve ev of
        None \<Rightarrow> w
      | Some Reset_command \<Rightarrow> reset_command w ev
      | Some Help_command \<Rightarrow> help_command w ev)"

definition on_message ::
  "int \<Rightarrow> (event \<Rightarrow> command option) \<Rightarrow> client \<Rightarrow> world \<Rightarrow> event \<Rightarrow> error + world" where
  "on_message bot_id resolve complete w ev =
     (if author_id ev = bot_id then Inr w
      else let w1 = process_commands resolve w ev in
        if startswith (content ev) command_prefix then Inr w1
        else (case derive_user_message bot_id ev of (should_respond, user_message) \<Rightarrow>
          if should_respond \<and> user_message \<noteq> [] then
            (case get_ai_response complete w1 (author_id ev) user_message of
               Inl e \<Rightarrow> Inl e
             | Inr (w2, response) \<Rightarrow> Inr (send_response w2 response))
          else Inr w1))"

section \<open>Sequences of operations on the history\<close>

text \<open>
  The history is changed by \<open>get_ai_response\<close> and \<open>reset_conversation\<close> only. An
  operation names the user and, for a chat, the message and what the completion client
  does with the call.
\<close>

datatype store_op = Chat int str "str + str" | Reset int

fun apply_op :: "world \<Rightarrow> store_op \<Rightarrow> error + world" where
  "apply_op w (Chat user_id user_message outcome) =
     (case get_ai_response (\<lambda>messages. outcome) w user_id user_message of
        Inl e \<Rightarrow> Inl e
      | Inr (w', response) \<Rightarrow> Inr w')"
| "apply_op w (Reset user_id) =
     Inr (w\<lparr>conversation_history := reset_conversation (conversation_history w) user_id\<rparr>)"

fun run :: "world \<Rightarrow> store_op list \<Rightarrow> error + world" where
  "run w [] = Inr w"
| "run w (x # xs) = (case apply_op w x of Inl e \<Rightarrow> Inl e | Inr w' \<Rightarrow> run w' xs)"

text \<open>A user turn is appended and the buffer trimmed (lines 78 to 85), message after message.\<close>

definition user_turn :: "str \<Rightarrow> turn" where
  "user_turn m = \<lparr>role = User, content = m\<rparr>"

definition append_user_turns :: "history \<Rightarrow> int \<Rightarrow> str list \<Rightarrow> history" where
  "append_user_turns h user_id ms =
     foldl (\<lambda>h m. trim (append_turn h user_id (user_turn m)) user_id) h ms"

definition assistant_turn :: "str \<Rightarrow> turn" where
  "assistant_turn m = \<lparr>role = Assistant, content = m\<rparr>"

text \<open>
  The buffer of a user after a sequence of operations run from the empty history of a
  fresh process.
\<close>

definition buffer_after :: "store_op list \<Rightarrow> int \<Rightarrow> error + turn list" where
  "buffer_after ops user_id =
     (case run initial ops of
        Inl e \<Rightarrow> Inl e
      | Inr w \<Rightarrow> Inr (buffer (conversation_history w) user_id))"

section \<open>Facts about the history operations\<close>

lemma buffer_eq: "buffer h u = (case h u of None \<Rightarrow> [] | Some b \<Rightarrow> b)"
  by (simp add: buffer_def getitem_def split: option.splits)

lemma buffer_upd_same: "buffer (h(u \<mapsto> b)) u = b"
  by (simp add: buffer_eq)

lemma buffer_upd_other: "v \<noteq> u \<Longrightarrow> buffer (h(u \<mapsto> b)) v = buffer h v"
  by (simp add: buffer_eq)

lemma append_turn_eq: "append_turn h u t = h(u \<mapsto> buffer h u @ [t])"
  by (simp add: append_turn_def buffer_eq getitem_def split: option.splits)

lemma trim_eq: "trim h u = h(u \<mapsto> slice_last MAX_HISTORY_LENGTH (buffer h u))"
  by (auto simp: trim_def buffer_eq getitem_def slice_last_def MAX_HISTORY_LENGTH_def
      split: option.splits)

lemma render_eq:
  "render p h u = (h(u \<mapsto> buffer h u), \<lparr>role = System, content = p\<rparr> # buffer h u)"
  by (auto simp: render_def buffer_eq getitem_def split: option.splits)

lemma rollback_last_eq:
  "rollback_last h u =
     (if buffer h u = [] then Inl IndexError else Inr (h(u \<mapsto> butlast (buffer h u))))"
  by (auto simp: rollback_last_def buffer_eq getitem_def split: option.splits)

lemma buffer_append_turn: "buffer (append_turn h u t) u = buffer h u @ [t]"
  by (simp add: append_turn_eq buffer_upd_same)

lemma buffer_trim: "buffer (trim h u) u = slice_last MAX_HISTORY_LENGTH (buffer h u)"
  by (simp add: trim_eq buffer_upd_same)

lemma slice_last_length:
  "length (slice_last MAX_HISTORY_LENGTH xs) = min (length xs) MAX_HISTORY_LENGTH"
  by (simp add: slice_last_def MAX_HISTORY_LENGTH_def)

lemma slice_last_snoc_neq: "slice_last MAX_HISTORY_LENGTH (xs @ [x]) \<noteq> []"
  by (simp add: slice_last_def MAX_HISTORY_LENGTH_def)

lemma slice_last_snoc:
  "slice_last MAX_HISTORY_LENGTH (xs @ [x]) =
     drop (Suc (length xs) - MAX_HISTORY_LENGTH) xs @ [x]"
  by (simp add: slice_last_def MAX_HISTORY_LENGTH_def)

lemma slice_last_idem_snoc:
  "slice_last MAX_HISTORY_LENGTH (slice_last MAX_HISTORY_LENGTH xs @ [x]) =
   slice_last MAX_HISTORY_LENGTH (xs @ [x])"
proof -
  have "length xs - (length xs - 20 + 19) + (length xs - 20) = length xs - 19"
    by arith
  then show ?thesis
    by (auto simp: slice_last_def MAX_HISTORY_LENGTH_def)
qed

lemma slice_last_after_rollback:
  "slice_last MAX_HISTORY_LENGTH (drop (Suc (length b) - MAX_HISTORY_LENGTH) b @ [t]) =
   slice_last MAX_HISTORY_LENGTH (b @ [t])"
  by (auto simp: slice_last_def MAX_HISTORY_LENGTH_def)

lemma replicate_numeral: "replicate (numeral k) x = x # replicate (pred_numeral k) x"
  by (simp add: numeral_eq_Suc)

text \<open>
  \<open>get_ai_response\<close> in one piece: the buffer the prompt is built from is the last
  \<open>MAX_HISTORY_LENGTH\<close> turns of the old buffer with the user turn appended. It is never
  empty, so the \<open>pop\<close> of the failure path finds an element.
\<close>

lemma get_ai_response_eq:
  "get_ai_response complete w u m =
     (let b = slice_last MAX_HISTORY_LENGTH
                (buffer (conversation_history w) u @ [\<lparr>role = User, content = m\<rparr>]);
          messages = \<lparr>role = System, content = SYSTEM_PROMPT\<rparr> # b
      in case complete messages of
           Inr a \<Rightarrow>
             Inr (w\<lparr>conversation_history :=
                       (conversation_history w)(u \<mapsto> b @ [\<lparr>role = Assistant, content = a\<rparr>]),
                     api_calls := api_calls w @ [messages]\<rparr>, a)
         | Inl e \<Rightarrow>
             Inr (w\<lparr>conversation_history := (conversation_history w)(u \<mapsto> butlast b),
                     api_calls := api_calls w @ [messages]\<rparr>,
                  lit ''Sorry, I encountered an error: '' @ e))"
  by (simp add: get_ai_response_def Let_def append_turn_eq trim_eq render_eq rollback_last_eq
      buffer_upd_same slice_last_snoc_neq split: sum.splits)

lemma get_ai_response_total: "\<exists>w' r. get_ai_response complete w u m = Inr (w', r)"
  by (simp add: get_ai_response_eq Let_def split: sum.splits)

lemma get_ai_response_other:
  assumes "get_ai_response complete w u m = Inr (w', r)" and "v \<noteq> u"
  shows "conversation_history w' v = conversation_history w v"
  using assms by (auto simp: get_ai_response_eq Let_def split: sum.splits)

lemma get_ai_response_length:
  assumes "get_ai_response complete w u m = Inr (w', r)"
  shows "length (buffer (conversation_history w') u) \<le> MAX_HISTORY_LENGTH + 1"
  using assms
  by (auto simp: get_ai_response_eq Let_def buffer_upd_same slice_last_length
      split: sum.splits)

text \<open>
  What a failed exchange leaves: the old buffer without the turns the trim discarded.
  Below the maximum nothing is discarded and the buffer is as before.
\<close>

lemma failed_exchange_buffer:
  assumes "complete (\<lparr>role = System, content = SYSTEM_PROMPT\<rparr> #
      slice_last MAX_HISTORY_LENGTH (buffer (conversation_history w) u @ [user_turn m])) = Inl e"
  shows "\<exists>w'. get_ai_response complete w u m =
             Inr (w', lit ''Sorry, I encountered an error: '' @ e) \<and>
     buffer (conversation_history w') u =
       drop (Suc (length (buffer (conversation_history w) u)) - MAX_HISTORY_LENGTH)
         (buffer (conversation_history w) u)"
  using assms
  by (simp add: get_ai_response_eq Let_def user_turn_def buffer_upd_same slice_last_snoc)

lemma failed_exchange_restores_below_max:
  assumes "get_ai_response (\<lambda>messages. Inl e) w u m = Inr (w', r)"
    and "length (buffer (conversation_history w) u) < MAX_HISTORY_LENGTH"
  shows "buffer (conversation_history w') u = buffer (conversation_history w) u"
  using assms failed_exchange_buffer [of "\<lambda>messages. Inl e" w u m e] by auto

text \<open>The bound that every operation keeps, and with it every run.\<close>

lemma apply_op_bound:
  assumes "\<forall>u. length (buffer (conversation_history w) u) \<le> MAX_HISTORY_LENGTH + 1"
  shows "\<exists>w'. apply_op w x = Inr w' \<and>
     (\<forall>u. length (buffer (conversation_history w') u) \<le> MAX_HISTORY_LENGTH + 1)"
proof (cases x)
  case (Chat user m outcome)
  obtain w' r where ok: "get_ai_response (\<lambda>messages. outcome) w user m = Inr (w', r)"
    using get_ai_response_total by blast
  have "length (buffer (conversation_history w') u) \<le> MAX_HISTORY_LENGTH + 1" for u
  proof (cases "u = user")
    case True
    then show ?thesis using get_ai_response_length [OF ok] by simp
  next
    case False
    then have "buffer (conversation_history w') u = buffer (conversation_history w) u"
      using get_ai_response_other [OF ok] by (simp add: buffer_eq)
    then show ?thesis using assms by simp
  qed
  then show ?thesis using Chat ok by simp
next
  case (Reset user)
  have "length (buffer (reset_conversation (conversation_history w) user) u)
      \<le> MAX_HISTORY_LENGTH + 1" for u
    using assms
    by (cases "u = user") (simp_all add: reset_conversation_def buffer_upd_same buffer_upd_other)
  then show ?thesis using Reset by simp
qed

lemma run_bound:
  assumes "\<forall>u. length (buffer (conversation_history w) u) \<le> MAX_HISTORY_LENGTH + 1"
  shows "\<exists>w'. run w ops = Inr w' \<and>
     (\<forall>u. length (buffer (conversation_history w') u) \<le> MAX_HISTORY_LENGTH + 1)"
  using assms
proof (induction ops arbitrary: w)
  case Nil
  then show ?case by simp
next
  case (Cons x ops)
  obtain w1 where step: "apply_op w x = Inr w1"
    and inv: "\<forall>u. length (buffer (conversation_history w1) u) \<le> MAX_HISTORY_LENGTH + 1"
    using apply_op_bound [OF Cons.prems] by blast
  show ?case using Cons.IH [OF inv] step by simp
qed

text \<open>Appending user turns, each followed by the trim, keeps the newest turns.\<close>

lemma append_user_turns_snoc:
  "append_user_turns h u (ms @ [m]) =
     trim (append_turn (append_user_turns h u ms) u (user_turn m)) u"
  by (simp add: append_user_turns_def)

lemma buffer_append_user_turns:
  "ms \<noteq> [] \<Longrightarrow> buffer (append_user_turns h u ms) u =
     slice_last MAX_HISTORY_LENGTH (buffer h u @ map user_turn ms)"
proof (induction ms rule: rev_induct)
  case Nil
  then show ?case by simp
next
  case (snoc m ms)
  show ?case
  proof (cases "ms = []")
    case True
    have "append_user_turns h u [m] = trim (append_turn h u (user_turn m)) u"
      by (simp add: append_user_turns_def)
    then have "buffer (append_user_turns h u [m]) u =
        slice_last MAX_HISTORY_LENGTH (buffer h u @ [user_turn m])"
      by (simp only: buffer_trim buffer_append_turn)
    with True show ?thesis by simp
  next
    case False
    then have "buffer (append_user_turns h u ms) u =
        slice_last MAX_HISTORY_LENGTH (buffer h u @ map user_turn ms)"
      using snoc.IH by simp
    then have "buffer (append_user_turns h u (ms @ [m])) u =
        slice_last MAX_HISTORY_LENGTH
          (slice_last MAX_HISTORY_LENGTH (buffer h u @ map user_turn ms) @ [user_turn m])"
      by (simp only: append_user_turns_snoc buffer_trim buffer_append_turn)
    then show ?thesis
      using slice_last_idem_snoc [of "buffer h u @ map user_turn ms" "user_turn m"]
      by simp
  qed
qed

text \<open>The slices of a response: where they start, what they hold, how many they are.\<close>

lemma range_step_lt: "j \<in> set (range_step i stop s) \<Longrightarrow> j < stop"
proof (induction i stop s rule: range_step.induct)
  case (1 i stop step)
  then show ?case
    by (subst (asm) (2) range_step.simps) (auto split: if_splits)
qed

lemma range_step_nth:
  "k < length (range_step i stop s) \<Longrightarrow> range_step i stop s ! k = i + k * s"
proof (induction i stop s arbitrary: k rule: range_step.induct)
  case (1 i stop step)
  show ?case
  proof (cases "step = 0 \<or> stop \<le> i")
    case True
    then show ?thesis using "1.prems" by (simp add: range_step.simps)
  next
    case False
    then have unf: "range_step i stop step = i # range_step (i + step) stop step"
      by (subst range_step.simps) simp
    show ?thesis
    proof (cases k)
      case 0
      then show ?thesis by (simp add: unf)
    next
      case (Suc k')
      then have "k' < length (range_step (i + step) stop step)"
        using "1.prems" unf by simp
      then have "range_step (i + step) stop step ! k' = i + step + k' * step"
        using "1.IH" False by simp
      then show ?thesis using Suc unf by simp
    qed
  qed
qed

lemma concat_slices:
  "0 < s \<Longrightarrow> concat (map (\<lambda>j. slice r j (j + s)) (range_step i (length r) s)) = drop i r"
proof (induction i "length r" s rule: range_step.induct)
  case (1 i step)
  show ?case
  proof (cases "length r \<le> i")
    case True
    then show ?thesis by (simp add: range_step.simps)
  next
    case False
    then have unf: "range_step i (length r) step = i # range_step (i + step) (length r) step"
      using "1.prems" by (subst range_step.simps) simp
    have "concat (map (\<lambda>j. slice r j (j + step)) (range_step (i + step) (length r) step)) =
        drop (i + step) r"
      using "1.hyps" "1.prems" False by simp
    moreover have "drop (i + step) r = drop step (drop i r)"
      by (simp add: add.commute)
    ultimately have
      "concat (map (\<lambda>j. slice r j (j + step)) (range_step i (length r) step)) =
        take step (drop i r) @ drop step (drop i r)"
      by (simp only: unf slice_def list.map concat.simps add_diff_cancel_left')
    then show ?thesis by (simp only: append_take_drop_id)
  qed
qed

lemma concat_chunks: "concat (chunks r) = r"
  using concat_slices [of 2000 r 0] by (simp add: chunks_def)

lemma chunks_nth:
  "k < length (chunks r) \<Longrightarrow> chunks r ! k = take 2000 (drop (2000 * k) r)"
  by (simp add: chunks_def range_step_nth slice_def mult.commute)

lemma chunks_length_bounds:
  assumes "c \<in> set (chunks r)"
  shows "0 < length c \<and> length c \<le> 2000"
proof -
  from assms obtain j where j: "j \<in> set (range_step 0 (length r) 2000)"
    and c: "c = slice r j (j + 2000)"
    by (auto simp: chunks_def)
  from j have "j < length r" by (rule range_step_lt)
  then show ?thesis by (simp add: c slice_def)
qed

lemma chunks_4500:
  assumes "length r = 4500"
  shows "map length (chunks r) = [2000, 2000, 500]"
proof -
  have "range_step 0 4500 2000 = [0, 2000, 4000]"
    by (simp add: range_step.simps)
  then show ?thesis using assms by (simp add: chunks_def slice_def)
qed

lemma send_loop:
  "foldl (\<lambda>w (i, chunk).
            if i = 0 then w\<lparr>sent := sent w @ [Reply chunk]\<rparr>
            else w\<lparr>sent := sent w @ [Send chunk]\<rparr>) w (enumerate n cs) =
   w\<lparr>sent := sent w @ map (\<lambda>(i, chunk). if i = 0 then Reply chunk else Send chunk)
                        (enumerate n cs)\<rparr>"
  by (induction cs arbitrary: w n) auto

lemma enumerate_followups:
  "0 < n \<Longrightarrow>
   map (\<lambda>(i, chunk). if i = 0 then Reply chunk else Send chunk) (enumerate n cs) = map Send cs"
  by (induction cs arbitrary: n) auto

lemma send_response_long:
  assumes "2000 < length r" and "chunks r = c # cs"
  shows "send_response w r = w\<lparr>sent := sent w @ Reply c # map Send cs\<rparr>"
  using assms by (simp add: send_response_def send_loop enumerate_followups)

lemma chunks_nonempty: "r \<noteq> [] \<Longrightarrow> chunks r \<noteq> []"
  by (subst chunks_def, subst range_step.simps) simp

lemma range_step_length:
  "0 < s \<Longrightarrow> length (range_step i stop s) = (stop - i + s - 1) div s"
proof (induction i stop s rule: range_step.induct)
  case (1 i stop step)
  show ?case
  proof (cases "stop \<le> i")
    case True
    then show ?thesis using "1.prems" by (simp add: range_step.simps)
  next
    case False
    then have unf: "range_step i stop step = i # range_step (i + step) stop step"
      using "1.prems" by (subst range_step.simps) simp
    have ih: "length (range_step (i + step) stop step) = (stop - (i + step) + step - 1) div step"
      using "1.IH" "1.prems" False by simp
    show ?thesis
    proof (cases "stop - i \<le> step")
      case True
      then have "stop - (i + step) + step - 1 = step - 1" by simp
      moreover have "(step - 1) div step = 0" using "1.prems" by simp
      moreover have "(stop - i + step - 1) div step = 1"
      proof (rule div_nat_eqI)
        show "step * 1 \<le> stop - i + step - 1" using False by simp
        show "stop - i + step - 1 < step * Suc 1" using True "1.prems" by simp
      qed
      ultimately show ?thesis using unf ih by simp
    next
      case False
      then have e: "stop - i + step - 1 = (stop - (i + step) + step - 1) + step" by simp
      have ne: "step \<noteq> 0" using "1.prems" by simp
      have "(stop - i + step - 1) div step = (stop - (i + step) + step - 1) div step + 1"
        by (simp only: e div_add_self2 [OF ne])
      then show ?thesis using unf ih by simp
    qed
  qed
qed

lemma chunks_count: "length (chunks r) = (length r + 1999) div 2000"
  using range_step_length [of 2000 0 "length r"] by (simp add: chunks_def)

text \<open>
  The dispatcher hands the text that \<open>get_ai_response\<close> returns, the reply or the
  apology, to \<open>send_response\<close>: for an event of another author that is no command
  and whose user message is not empty.
\<close>

lemma on_message_sends_response:
  assumes "author_id ev \<noteq> bot_id" and "\<not> startswith (content ev) command_prefix"
    and "derive_user_message bot_id ev = (True, user_message)" and "user_message \<noteq> []"
    and "get_ai_response complete (process_commands resolve w ev) (author_id ev) user_message =
           Inr (w2, response)"
  shows "on_message bot_id resolve complete w ev = Inr (send_response w2 response)"
  using assms by (simp add: on_message_def)

section \<open>The claims about the history\<close>

text \<open>
  C1, as amended. When the completion call fails, \<open>get_ai_response\<close> returns the
  apology and the appended user turn is removed again. If the buffer held fewer than
  \<open>MAX_HISTORY_LENGTH\<close> turns before the append, it is exactly as it was before. In every
  case the buffer that the append and trim of the user's next message produce, the one
  the next prompt is built from, is the buffer that the state before the failed exchange
  would give.
\<close>

theorem failed_exchange_rollback:
  "\<exists>w'. get_ai_response (\<lambda>messages. Inl e) w u m =
          Inr (w', lit ''Sorry, I encountered an error: '' @ e) \<and>
     (length (buffer (conversation_history w) u) < MAX_HISTORY_LENGTH \<longrightarrow>
        buffer (conversation_history w') u = buffer (conversation_history w) u) \<and>
     buffer (trim (append_turn (conversation_history w') u t) u) u =
       buffer (trim (append_turn (conversation_history w) u t) u) u"
proof -
  obtain w' where ok: "get_ai_response (\<lambda>messages. Inl e) w u m =
      Inr (w', lit ''Sorry, I encountered an error: '' @ e)"
    and b: "buffer (conversation_history w') u =
      drop (Suc (length (buffer (conversation_history w) u)) - MAX_HISTORY_LENGTH)
        (buffer (conversation_history w) u)"
    using failed_exchange_buffer [of "\<lambda>messages. Inl e" w u m e] by auto
  have "buffer (trim (append_turn (conversation_history w') u t) u) u =
      buffer (trim (append_turn (conversation_history w) u t) u) u"
    by (simp only: buffer_trim buffer_append_turn b slice_last_after_rollback)
  with ok b show ?thesis by auto
qed

theorem failed_exchange_rollback_witness:
  "length (buffer [1 \<mapsto> [user_turn (lit ''hi''), assistant_turn (lit ''yo'')]] 1)
     < MAX_HISTORY_LENGTH \<and>
   (\<exists>w'. get_ai_response (\<lambda>messages. Inl (lit ''timeout''))
           (initial\<lparr>conversation_history :=
              [1 \<mapsto> [user_turn (lit ''hi''), assistant_turn (lit ''yo'')]]\<rparr>) 1 (lit ''hello'') =
          Inr (w', lit ''Sorry, I encountered an error: '' @ lit ''timeout'') \<and>
        buffer (conversation_history w') 1 =
          [user_turn (lit ''hi''), assistant_turn (lit ''yo'')])"
  using failed_exchange_rollback [where e = "lit ''timeout''" and u = 1 and m = "lit ''hello''"
      and t = "user_turn (lit ''again'')"
      and w = "initial\<lparr>conversation_history :=
              [1 \<mapsto> [user_turn (lit ''hi''), assistant_turn (lit ''yo'')]]\<rparr>"]
  by (auto simp: buffer_upd_same MAX_HISTORY_LENGTH_def)

text \<open>
  The claim as stated, for every buffer state, fails on a full buffer. After ten answered
  messages user 1 has twenty turns; the eleventh message is appended, the trim discards
  the oldest turn, the call fails, and \<open>pop\<close> removes the new turn only: nineteen turns
  are left.
\<close>

theorem failed_exchange_on_full_buffer_loses_oldest_turn:
  "buffer_after (replicate 10 (Chat 1 (lit ''hi'') (Inr (lit ''yo'')))) 1 =
     Inr (concat (replicate 10 [user_turn (lit ''hi''), assistant_turn (lit ''yo'')])) \<and>
   buffer_after (replicate 10 (Chat 1 (lit ''hi'') (Inr (lit ''yo''))) @
                 [Chat 1 (lit ''hello'') (Inl (lit ''timeout''))]) 1 =
     Inr (tl (concat (replicate 10 [user_turn (lit ''hi''), assistant_turn (lit ''yo'')]))) \<and>
   tl (concat (replicate 10 [user_turn (lit ''hi''), assistant_turn (lit ''yo'')])) \<noteq>
     concat (replicate 10 [user_turn (lit ''hi''), assistant_turn (lit ''yo'')])"
  by (simp add: buffer_after_def initial_def replicate_numeral get_ai_response_eq Let_def
      buffer_eq slice_last_def MAX_HISTORY_LENGTH_def user_turn_def assistant_turn_def)

text \<open>
  C3, as amended. In every state that a sequence of operations reaches from the empty
  history, every user's buffer has at most \<open>MAX_HISTORY_LENGTH + 1\<close> turns (and the
  sequence runs to its end); right after the trim that follows the append of a user
  turn, which is where the prompt is built, it has at most \<open>MAX_HISTORY_LENGTH\<close>. The
  assistant turn is appended after the trim, and no trim follows it.
\<close>

theorem buffer_length_bound:
  "(\<exists>b. buffer_after ops u = Inr b \<and> length b \<le> MAX_HISTORY_LENGTH + 1) \<and>
   length (buffer (trim (append_turn h u t) u) u) \<le> MAX_HISTORY_LENGTH"
proof -
  have "\<forall>u. length (buffer (conversation_history initial) u) \<le> MAX_HISTORY_LENGTH + 1"
    by (simp add: initial_def buffer_eq)
  then obtain w' where "run initial ops = Inr w'"
    and "\<forall>u. length (buffer (conversation_history w') u) \<le> MAX_HISTORY_LENGTH + 1"
    using run_bound by blast
  then have "\<exists>b. buffer_after ops u = Inr b \<and> length b \<le> MAX_HISTORY_LENGTH + 1"
    by (simp add: buffer_after_def)
  moreover have "length (buffer (trim (append_turn h u t) u) u) \<le> MAX_HISTORY_LENGTH"
    by (simp add: buffer_trim slice_last_length)
  ultimately show ?thesis by blast
qed

text \<open>
  The claim as stated, with the bound \<open>MAX_HISTORY_LENGTH\<close> after the assistant turn as
  well, fails after eleven answered messages: the buffer has 21 turns.
\<close>

theorem buffer_exceeds_max_after_assistant_append:
  "buffer_after (replicate 11 (Chat 1 (lit ''hi'') (Inr (lit ''yo'')))) 1 =
     Inr (tl (concat (replicate 11 [user_turn (lit ''hi''), assistant_turn (lit ''yo'')]))) \<and>
   length (tl (concat (replicate 11 [user_turn (lit ''hi''), assistant_turn (lit ''yo'')]))) = 21 \<and>
   MAX_HISTORY_LENGTH < 21"
  by (simp add: buffer_after_def initial_def replicate_numeral get_ai_response_eq Let_def
      buffer_eq slice_last_def MAX_HISTORY_LENGTH_def user_turn_def assistant_turn_def)

text \<open>
  The rollback is the \<open>pop\<close> of line 113, in the failure path of \<open>get_ai_response\<close>.
  \<open>list.pop\<close> raises on an empty list, and \<open>rollback_last\<close> keeps that branch. The
  code runs the rollback right after the append of the user turn and the trim, where
  the buffer holds at least the appended turn: it removes the last turn and does not
  raise, and \<open>get_ai_response\<close> returns for every completion client, state, user and
  message.
\<close>

lemma rollback_never_raises:
  "(\<exists>h'. rollback_last (trim (append_turn h u t) u) u = Inr h' \<and>
      buffer h' u = butlast (buffer (trim (append_turn h u t) u) u)) \<and>
   (\<exists>w' r. get_ai_response complete w u m = Inr (w', r))"
  using get_ai_response_total [of complete w u m]
  by (simp add: rollback_last_eq trim_eq append_turn_eq buffer_upd_same slice_last_snoc_neq)



text \<open>
  C6. After more than \<open>MAX_HISTORY_LENGTH\<close> appends of user turns, each followed by the
  trim, and whatever the buffer held before, the buffer has exactly
  \<open>MAX_HISTORY_LENGTH\<close> turns: the last \<open>MAX_HISTORY_LENGTH\<close> of the appended ones, in
  the order of their appends.
\<close>

theorem append_beyond_max_keeps_newest:
  assumes "MAX_HISTORY_LENGTH < length ms"
  shows "buffer (append_user_turns h u ms) u =
           map user_turn (drop (length ms - MAX_HISTORY_LENGTH) ms) \<and>
         length (buffer (append_user_turns h u ms) u) = MAX_HISTORY_LENGTH"
proof -
  from assms have "ms \<noteq> []" by auto
  then have "buffer (append_user_turns h u ms) u =
      slice_last MAX_HISTORY_LENGTH (buffer h u @ map user_turn ms)"
    by (rule buffer_append_user_turns)
  also have "\<dots> = map user_turn (drop (length ms - MAX_HISTORY_LENGTH) ms)"
    using assms by (simp add: slice_last_def MAX_HISTORY_LENGTH_def drop_map)
  finally show ?thesis using assms by simp
qed

theorem append_beyond_max_keeps_newest_witness:
  "MAX_HISTORY_LENGTH < length (map (\<lambda>n. [n]) [0..<21]) \<and>
   buffer (append_user_turns Map.empty 1 (map (\<lambda>n. [n]) [0..<21])) 1 =
     map user_turn (map (\<lambda>n. [n]) [1..<21])"
proof -
  have h: "MAX_HISTORY_LENGTH < length (map (\<lambda>n. [n]) [0..<21])"
    by (simp add: MAX_HISTORY_LENGTH_def)
  have "drop (21 - MAX_HISTORY_LENGTH) [0..<21] = [1..<21]"
    by (simp add: MAX_HISTORY_LENGTH_def drop_upt)
  then show ?thesis
    using h append_beyond_max_keeps_newest [OF h, of Map.empty 1]
    by (simp add: drop_map)
qed

text \<open>
  C8. The rendered list is the system turn followed by the user's buffer, in order. No
  buffer is changed by it, and where the code renders, after the append and the trim,
  the history is left as it is. From an empty buffer, after at most
  \<open>MAX_HISTORY_LENGTH\<close> appended user turns, it is the system turn followed by exactly
  those turns.
\<close>

theorem render_system_then_buffer:
  "snd (render p h u) = \<lparr>role = System, content = p\<rparr> # buffer h u \<and>
   (\<forall>v. buffer (fst (render p h u)) v = buffer h v) \<and>
   fst (render p (trim (append_turn h u t) u) u) = trim (append_turn h u t) u \<and>
   (buffer h u = [] \<and> length ms \<le> MAX_HISTORY_LENGTH \<longrightarrow>
      snd (render p (append_user_turns h u ms) u) =
        \<lparr>role = System, content = p\<rparr> # map user_turn ms)"
proof -
  have a: "snd (render p h u) = \<lparr>role = System, content = p\<rparr> # buffer h u" for h
    by (simp add: render_eq)
  have b: "buffer (fst (render p h u)) v = buffer h v" for v
    by (cases "v = u") (simp_all add: render_eq buffer_upd_same buffer_upd_other)
  have c: "fst (render p (trim (append_turn h u t) u) u) = trim (append_turn h u t) u"
    by (simp add: render_eq trim_eq buffer_upd_same)
  have d: "buffer (append_user_turns h u ms) u = map user_turn ms"
    if "buffer h u = []" and "length ms \<le> MAX_HISTORY_LENGTH"
  proof (cases "ms = []")
    case True
    then show ?thesis using that by (simp add: append_user_turns_def)
  next
    case False
    then show ?thesis
      using that by (simp add: buffer_append_user_turns slice_last_def)
  qed
  show ?thesis using a b c d by simp
qed

theorem render_system_then_buffer_witness:
  "buffer Map.empty 1 = [] \<and> length [lit ''hi'', lit ''there''] \<le> MAX_HISTORY_LENGTH \<and>
   snd (render SYSTEM_PROMPT (append_user_turns Map.empty 1 [lit ''hi'', lit ''there'']) 1) =
     [\<lparr>role = System, content = SYSTEM_PROMPT\<rparr>, user_turn (lit ''hi''),
      user_turn (lit ''there'')]"
  using render_system_then_buffer [where p = SYSTEM_PROMPT and h = Map.empty and u = 1
      and t = "user_turn (lit ''hi'')" and ms = "[lit ''hi'', lit ''there'']"]
  by (simp add: buffer_eq MAX_HISTORY_LENGTH_def)

text \<open>
  C10. An operation on the history of user \<open>u\<close>, the append of a turn, the trim, the
  rollback, the reset, and \<open>get_ai_response\<close> as a whole, with a completion that
  succeeds or fails, leaves the entry of every other user \<open>v\<close> as it was.
\<close>

theorem other_users_untouched:
  assumes "v \<noteq> u"
  shows "append_turn h u t v = h v \<and> trim h u v = h v \<and>
         reset_conversation h u v = h v \<and>
         (case rollback_last h u of Inl e \<Rightarrow> True | Inr h' \<Rightarrow> h' v = h v) \<and>
         (\<exists>w' r. get_ai_response complete w u m = Inr (w', r) \<and>
            conversation_history w' v = conversation_history w v)"
proof -
  obtain w' r where ok: "get_ai_response complete w u m = Inr (w', r)"
    using get_ai_response_total by blast
  then have "conversation_history w' v = conversation_history w v"
    using assms by (rule get_ai_response_other)
  with ok show ?thesis
    using assms
    by (simp add: append_turn_eq trim_eq reset_conversation_def rollback_last_eq)
qed

theorem other_users_untouched_witness:
  "(2::int) \<noteq> 1 \<and>
   append_turn [2 \<mapsto> [user_turn (lit ''yo'')]] 1 (user_turn (lit ''hi'')) 2 =
     Some [user_turn (lit ''yo'')] \<and>
   reset_conversation [2 \<mapsto> [user_turn (lit ''yo'')]] 1 2 = Some [user_turn (lit ''yo'')]"
  using other_users_untouched [where v = 2 and u = 1 and h = "[2 \<mapsto> [user_turn (lit ''yo'')]]"
      and t = "user_turn (lit ''hi'')" and complete = "\<lambda>messages. Inl []" and w = initial
      and m = "[]"]
  by simp

section \<open>The claims about the dispatcher\<close>

text \<open>
  C2. The claim: on a shared channel, the user message is the text with the plain mention
  \<open><@id>\<close> and the nickname mention \<open><@!id>\<close> removed, and stripped. The code
  computes the text without the plain mention and then assigns the user message again,
  from \<open>message.content\<close>: the first result is lost, and a plain mention stays in
  the user message.
\<close>

theorem plain_mention_not_stripped:
  "derive_user_message 987654321098765432
     \<lparr>author_id = 5, content = lit ''<@987654321098765432> explain recursion'',
      is_dm = False, mentioned = True\<rparr> =
   (True, lit ''<@987654321098765432> explain recursion'')"
  by (simp add: derive_user_message_def lit_def str_int_def digits.simps strip_def isspace_def)

text \<open>The nickname mention, the second assignment, is removed.\<close>

lemma nickname_mention_stripped:
  "derive_user_message 987654321098765432
     \<lparr>author_id = 5, content = lit ''<@!987654321098765432> explain recursion'',
      is_dm = False, mentioned = True\<rparr> =
   (True, lit ''explain recursion'')"
  by (simp add: derive_user_message_def lit_def str_int_def digits.simps strip_def isspace_def)


text \<open>
  C5. A response of more than 2000 characters is sent in slices: the first as a reply,
  the others with \<open>channel.send\<close>, in their order. Slice \<open>k\<close> holds the 2000
  characters from position \<open>2000 * k\<close> on (fewer at the end), no slice is empty or
  longer than 2000, there are \<open>\<lceil>length r / 2000\<rceil>\<close> of them, and a response of 4500
  characters gives three, of 2000, 2000 and 500 characters.
\<close>

theorem long_reply_sent_in_chunks:
  assumes "2000 < length r"
  shows "(\<exists>c cs. chunks r = c # cs \<and>
            send_response w r = w\<lparr>sent := sent w @ Reply c # map Send cs\<rparr>) \<and>
         (\<forall>k<length (chunks r). chunks r ! k = take 2000 (drop (2000 * k) r)) \<and>
         (\<forall>c\<in>set (chunks r). 0 < length c \<and> length c \<le> 2000) \<and>
         length (chunks r) = (length r + 1999) div 2000 \<and>
         (length r = 4500 \<longrightarrow> map length (chunks r) = [2000, 2000, 500])"
proof -
  from assms have "r \<noteq> []" by auto
  then obtain c cs where cs: "chunks r = c # cs"
    using chunks_nonempty by (cases "chunks r") auto
  then have "send_response w r = w\<lparr>sent := sent w @ Reply c # map Send cs\<rparr>"
    using assms by (simp add: send_response_long)
  with cs show ?thesis
    using chunks_nth chunks_length_bounds chunks_4500 chunks_count by blast
qed

theorem long_reply_sent_in_chunks_witness:
  "2000 < length (replicate 4500 (65::nat)) \<and>
   map length (chunks (replicate 4500 65)) = [2000, 2000, 500]"
  using long_reply_sent_in_chunks [of "replicate 4500 65" initial] by simp

text \<open>
  C9. The texts of the messages sent for a response, concatenated in the order they are
  sent, are the response.
\<close>

theorem fragments_concat_to_reply:
  "\<exists>fs. send_response w r = w\<lparr>sent := sent w @ fs\<rparr> \<and> fs \<noteq> [] \<and>
     concat (map payload fs) = r"
proof (cases "length r \<le> 2000")
  case True
  then have "send_response w r = w\<lparr>sent := sent w @ [Reply r]\<rparr>"
    by (simp add: send_response_def)
  then show ?thesis by (auto simp: payload_def)
next
  case False
  then have "r \<noteq> []" by auto
  then obtain c cs where cs: "chunks r = c # cs"
    using chunks_nonempty by (cases "chunks r") auto
  then have "send_response w r = w\<lparr>sent := sent w @ Reply c # map Send cs\<rparr>"
    using False by (simp add: send_response_long)
  moreover have "concat (map payload (Reply c # map Send cs)) = concat (chunks r)"
    by (simp add: cs payload_def comp_def)
  ultimately show ?thesis using concat_chunks [of r] by auto
qed

text \<open>
  C7. An event of another author whose text starts with \<open>!\<close> ends after
  \<open>process_commands\<close>: no completion call is made, the history is as it was or, for
  the reset command, has the author's buffer emptied, and what is sent is the reply of
  the command the library found. With no command found nothing is sent and the state
  is unchanged.
\<close>

theorem command_prefix_stops_dispatch:
  assumes "author_id ev \<noteq> bot_id" and "startswith (content ev) command_prefix"
  shows "on_message bot_id resolve complete w ev = Inr (process_commands resolve w ev) \<and>
         api_calls (process_commands resolve w ev) = api_calls w \<and>
         conversation_history (process_commands resolve w ev) =
           (case resolve ev of
              Some Reset_command \<Rightarrow> reset_conversation (conversation_history w) (author_id ev)
            | _ \<Rightarrow> conversation_history w) \<and>
         sent (process_commands resolve w ev) =
           sent w @ (case resolve ev of
                       None \<Rightarrow> []
                     | Some Reset_command \<Rightarrow> [Reply RESET_REPLY]
                     | Some Help_command \<Rightarrow> [Reply_embed]) \<and>
         (resolve ev = None \<longrightarrow> on_message bot_id resolve complete w ev = Inr w)"
  using assms
  by (simp add: on_message_def process_commands_def reset_command_def help_command_def
      split: option.splits command.splits)

theorem command_prefix_stops_dispatch_witness:
  "(5::int) \<noteq> 99 \<and> startswith (lit ''!reset'') command_prefix \<and>
   on_message 99 (\<lambda>ev. Some Reset_command) (\<lambda>messages. Inr (lit ''yo''))
       (initial\<lparr>conversation_history := [5 \<mapsto> [user_turn (lit ''hi''), assistant_turn (lit ''yo'')]]\<rparr>)
       \<lparr>author_id = 5, content = lit ''!reset'', is_dm = True, mentioned = False\<rparr> =
     Inr \<lparr>conversation_history = [5 \<mapsto> []], api_calls = [], sent = [Reply RESET_REPLY]\<rparr>"
  using command_prefix_stops_dispatch [where bot_id = 99 and resolve = "\<lambda>ev. Some Reset_command"
      and complete = "\<lambda>messages. Inr (lit ''yo'')"
      and w = "initial\<lparr>conversation_history := [5 \<mapsto> [user_turn (lit ''hi''), assistant_turn (lit ''yo'')]]\<rparr>"
      and ev = "\<lparr>author_id = 5, content = lit ''!reset'', is_dm = True, mentioned = False\<rparr>"]
  by (simp add: startswith_def command_prefix_def lit_def process_commands_def
      reset_command_def reset_conversation_def initial_def)


end
